theory Spec2Isabelle
  imports Complex_Main "HOL-Library.Log_Nat"
begin

section \<open>Data model (types.ts)\<close>

text \<open>
  The string-literal unions \<^verbatim>\<open>ServiceType\<close> and \<^verbatim>\<open>RoleFunction\<close> are datatypes with one
  constructor per literal; \<open>service_text\<close> and \<open>role_text\<close> give the literal itself, as
  the template strings of the warnings interpolate it. A JavaScript string is a
  sequence of UTF-16 code units; every code unit that occurs here is below 256, so one
  \<open>char\<close> stands for one code unit (\<open>0xE9\<close>, \<open>0xE1\<close>, \<open>0xF1\<close> and \<open>0xF3\<close> are the accented
  letters of the source).
\<close>

datatype ServiceType = Domingo | Miercoles | Sabado_Manana | Sabado_Tarde

datatype RoleFunction = Consola | Transmision | Proyeccion | Medios_Digitales | Coordinacion

fun service_text :: "ServiceType \<Rightarrow> string" where
  "service_text Domingo = ''Domingo''"
| "service_text Miercoles = ''Mi'' @ [CHR 0xE9] @ ''rcoles''"
| "service_text Sabado_Manana = ''S'' @ [CHR 0xE1] @ ''bado Ma'' @ [CHR 0xF1] @ ''ana''"
| "service_text Sabado_Tarde = ''S'' @ [CHR 0xE1] @ ''bado Tarde''"

fun role_text :: "RoleFunction \<Rightarrow> string" where
  "role_text Consola = ''Consola''"
| "role_text Transmision = ''Transmisi'' @ [CHR 0xF3] @ ''n''"
| "role_text Proyeccion = ''Proyecci'' @ [CHR 0xF3] @ ''n''"
| "role_text Medios_Digitales = ''Medios Digitales''"
| "role_text Coordinacion = ''Coordinaci'' @ [CHR 0xF3] @ ''n''"

record Volunteer =
  id_v :: int
  name :: string
  functions_v :: "RoleFunction list"
  availability :: "ServiceType list"
  restrictions :: "string list"
  total_score :: int

text \<open>
  \<^verbatim>\<open>ScheduleAssignment\<close>: the optional \<^verbatim>\<open>id\<close> is \<open>None\<close> when the field is absent, and
  \<^verbatim>\<open>volunteer_id: number | null\<close> is \<open>None\<close> for \<^verbatim>\<open>null\<close>.
\<close>

record ScheduleAssignment =
  id_a :: "int option"
  week_start :: string
  service_type :: ServiceType
  function_name :: RoleFunction
  volunteer_id :: "int option"

definition ALL_FUNCTIONS :: "RoleFunction list" where
  "ALL_FUNCTIONS = [Consola, Transmision, Proyeccion, Medios_Digitales, Coordinacion]"

definition ALL_SERVICES :: "ServiceType list" where
  "ALL_SERVICES = [Domingo, Miercoles, Sabado_Manana, Sabado_Tarde]"

section \<open>generateSchedule (App.tsx)\<close>

text \<open>
  The state the two loops of \<^verbatim>\<open>generateSchedule\<close> update: the local array \<^verbatim>\<open>assignments\<close>,
  the local \<^verbatim>\<open>Map<number, Set<RoleFunction>>\<close> \<^verbatim>\<open>usedThisWeek\<close>, the React state \<^verbatim>\<open>warnings\<close>
  (reset to the empty list on entry, then only appended to), and the number of calls
  made to \<^verbatim>\<open>Math.random\<close> so far.
\<close>

record sched_state =
  assignments :: "ScheduleAssignment list"
  usedThisWeek :: "int \<rightharpoonup> RoleFunction set"
  warnings :: "string list"
  draws :: nat

text \<open>Reading a property of \<^verbatim>\<open>undefined\<close> throws a \<^verbatim>\<open>TypeError\<close>.\<close>

datatype error = TypeError

text \<open>\<^verbatim>\<open>usedThisWeek.get(id) || new Set()\<close>: a \<^verbatim>\<open>Set\<close> object is truthy, also when empty.\<close>

definition rolesUsed_of :: "(int \<rightharpoonup> RoleFunction set) \<Rightarrow> int \<Rightarrow> RoleFunction set" where
  "rolesUsed_of used i = (case used i of None \<Rightarrow> {} | Some s \<Rightarrow> s)"

text \<open>
  The callback of the first \<^verbatim>\<open>volunteers.filter\<close>, one \<open>if\<close> per early \<^verbatim>\<open>return false\<close>.
  \<^verbatim>\<open>rolesUsed.size > 0\<close> is \<open>rolesUsed \<noteq> {}\<close>.
\<close>

definition strict_filter ::
  "int option set \<Rightarrow> (int \<rightharpoonup> RoleFunction set) \<Rightarrow> ServiceType \<Rightarrow> RoleFunction \<Rightarrow> Volunteer \<Rightarrow> bool"
where
  "strict_filter lastWeekVolunteers used service role v =
     (if service \<notin> set (availability v) then False
      else if role \<notin> set (functions_v v) then False
      else if Some (id_v v) \<in> lastWeekVolunteers then False
      else
        (let rolesUsed = rolesUsed_of used (id_v v) in
         if rolesUsed \<noteq> {} then
           (let isCoord = (role = Coordinacion \<or> Coordinacion \<in> rolesUsed) in
            if \<not> isCoord then False else True)
         else True))"

text \<open>The callback of the second \<^verbatim>\<open>volunteers.filter\<close> (the fallback).\<close>

definition relaxed_filter ::
  "(int \<rightharpoonup> RoleFunction set) \<Rightarrow> ServiceType \<Rightarrow> RoleFunction \<Rightarrow> Volunteer \<Rightarrow> bool"
where
  "relaxed_filter used service role v =
     (if service \<notin> set (availability v) then False
      else
        (let rolesUsed = rolesUsed_of used (id_v v) in
         if rolesUsed \<noteq> {} then
           (let isCoord = (role = Coordinacion \<or> Coordinacion \<in> rolesUsed) in
            if \<not> isCoord then False else True)
         else True))"

definition strict_candidates ::
  "Volunteer list \<Rightarrow> int option set \<Rightarrow> (int \<rightharpoonup> RoleFunction set) \<Rightarrow> ServiceType \<Rightarrow> RoleFunction
     \<Rightarrow> Volunteer list"
where
  "strict_candidates volunteers lastWeekVolunteers used service role =
     filter (strict_filter lastWeekVolunteers used service role) volunteers"

definition relaxed_candidates ::
  "Volunteer list \<Rightarrow> (int \<rightharpoonup> RoleFunction set) \<Rightarrow> ServiceType \<Rightarrow> RoleFunction \<Rightarrow> Volunteer list"
where
  "relaxed_candidates volunteers used service role =
     filter (relaxed_filter used service role) volunteers"

text \<open>The two template strings passed to \<^verbatim>\<open>setWarnings\<close>.\<close>

definition relaxed_warning :: "RoleFunction \<Rightarrow> ServiceType \<Rightarrow> string" where
  "relaxed_warning role service =
     ''Aviso: Se asign'' @ [CHR 0xF3] @ '' a alguien no preferente para '' @ role_text role
       @ '' en '' @ service_text service"

definition vacancy_warning :: "RoleFunction \<Rightarrow> ServiceType \<Rightarrow> string" where
  "vacancy_warning role service =
     ''Error: No hay voluntarios disponibles para '' @ role_text role
       @ '' en '' @ service_text service"

text \<open>
  A JavaScript Number is an IEEE 754 binary64 value, and \<^verbatim>\<open>*\<close> on Numbers is the exact
  product rounded to the nearest such value, ties to the even significand.
  \<open>binary_round p emin\<close> rounds to the format with \<open>p\<close> significant bits whose least
  positive value is \<open>2 ^ - emin\<close>: the argument is scaled to that unit, \<open>bitlen\<close> gives
  the number of bits of its integer part, the excess over \<open>p\<close> bits is the shift \<open>sh\<close>,
  and the scaled value is rounded to a multiple of \<open>2 ^ sh\<close>. binary64 has \<open>p = 53\<close> and
  \<open>emin = 1074\<close>. The products taken here are below the length of an array, which is
  below \<open>2 ^ 32\<close>, so the largest finite value is out of reach and is not modelled.
\<close>

definition round_half_even :: "real \<Rightarrow> int" where
  "round_half_even q =
     (let f = \<lfloor>q\<rfloor> in
      if q - of_int f < 1 / 2 then f
      else if 1 / 2 < q - of_int f then f + 1
      else if even f then f else f + 1)"

definition binary_round :: "nat \<Rightarrow> nat \<Rightarrow> real \<Rightarrow> real" where
  "binary_round p emin x =
     (let scaled = \<bar>x\<bar> * 2 ^ emin;
          sh = nat (bitlen \<lfloor>scaled\<rfloor> - int p);
          q = round_half_even (scaled / 2 ^ sh)
      in sgn x * (of_int q * 2 ^ sh / 2 ^ emin))"

definition double_round :: "real \<Rightarrow> real" where
  "double_round x = binary_round 53 1074 x"

text \<open>The real numbers that are Numbers: those that rounding leaves as they are.\<close>

definition is_double :: "real \<Rightarrow> bool" where
  "is_double x \<longleftrightarrow> double_round x = x"

text \<open>
  \<^verbatim>\<open>Math.floor(Math.random() * candidates.length)\<close>, for the Number \<open>r\<close> that \<^verbatim>\<open>Math.random\<close>
  returned: the floor of the rounded product. The length of an array is an integer below
  \<open>2 ^ 32\<close> and is a Number as it is.
\<close>

definition random_index :: "real \<Rightarrow> 'a list \<Rightarrow> int" where
  "random_index r candidates = \<lfloor>double_round (r * real (length candidates))\<rfloor>"

text \<open>\<^verbatim>\<open>candidates[i]\<close>: \<^verbatim>\<open>undefined\<close> (here \<open>None\<close>) outside the array.\<close>

definition element_at :: "'a list \<Rightarrow> int \<Rightarrow> 'a option" where
  "element_at xs i = (if 0 \<le> i \<and> i < int (length xs) then Some (xs ! nat i) else None)"

definition new_assignment :: "string \<Rightarrow> ServiceType \<Rightarrow> RoleFunction \<Rightarrow> int option \<Rightarrow> ScheduleAssignment" where
  "new_assignment currentWeekStart service role vol =
     \<lparr>id_a = None, week_start = currentWeekStart, service_type = service,
      function_name = role, volunteer_id = vol\<rparr>"

text \<open>
  The body of the inner loop, for one \<^verbatim>\<open>service\<close> and one \<^verbatim>\<open>role\<close>. \<open>rnd k\<close> is the value
  of the \<open>k\<close>-th call of \<^verbatim>\<open>Math.random\<close>. \<^verbatim>\<open>selected.id\<close> throws when \<^verbatim>\<open>selected\<close> is
  \<^verbatim>\<open>undefined\<close>.
\<close>

definition slot_step ::
  "(nat \<Rightarrow> real) \<Rightarrow> Volunteer list \<Rightarrow> int option set \<Rightarrow> string \<Rightarrow> ServiceType \<Rightarrow> RoleFunction
     \<Rightarrow> sched_state \<Rightarrow> error + sched_state"
where
  "slot_step rnd volunteers lastWeekVolunteers currentWeekStart service role st =
     (let strict = strict_candidates volunteers lastWeekVolunteers (usedThisWeek st) service role;
          relaxed = relaxed_candidates volunteers (usedThisWeek st) service role;
          candidates = (if strict = [] then relaxed else strict);
          st1 = (if strict = [] \<and> candidates \<noteq> []
                 then st\<lparr>warnings := warnings st @ [relaxed_warning role service]\<rparr>
                 else st)
      in
      if candidates \<noteq> [] then
        (case element_at candidates (random_index (rnd (draws st1)) candidates) of
           None \<Rightarrow> Inl TypeError
         | Some selected \<Rightarrow>
             Inr (st1\<lparr>assignments := assignments st1
                        @ [new_assignment currentWeekStart service role (Some (id_v selected))],
                      usedThisWeek := (usedThisWeek st1)(id_v selected \<mapsto>
                        insert role (rolesUsed_of (usedThisWeek st1) (id_v selected))),
                      draws := Suc (draws st1)\<rparr>))
      else
        Inr (st1\<lparr>assignments := assignments st1
                   @ [new_assignment currentWeekStart service role None],
                 warnings := warnings st1 @ [vacancy_warning role service]\<rparr>))"

definition neededFunctions :: "ServiceType \<Rightarrow> RoleFunction list" where
  "neededFunctions service = (if service = Domingo then [Transmision] else ALL_FUNCTIONS)"

text \<open>The inner loop \<^verbatim>\<open>for (const func of neededFunctions)\<close>; an exception ends it.\<close>

fun functions_loop ::
  "(nat \<Rightarrow> real) \<Rightarrow> Volunteer list \<Rightarrow> int option set \<Rightarrow> string \<Rightarrow> ServiceType \<Rightarrow> RoleFunction list
     \<Rightarrow> sched_state \<Rightarrow> error + sched_state"
where
  "functions_loop rnd volunteers lastWeekVolunteers currentWeekStart service [] st = Inr st"
| "functions_loop rnd volunteers lastWeekVolunteers currentWeekStart service (func # funcs) st =
     (case slot_step rnd volunteers lastWeekVolunteers currentWeekStart service func st of
        Inl e \<Rightarrow> Inl e
      | Inr st' \<Rightarrow>
          functions_loop rnd volunteers lastWeekVolunteers currentWeekStart service funcs st')"

text \<open>The outer loop \<^verbatim>\<open>for (const service of ALL_SERVICES)\<close>.\<close>

fun services_loop ::
  "(nat \<Rightarrow> real) \<Rightarrow> Volunteer list \<Rightarrow> int option set \<Rightarrow> string \<Rightarrow> ServiceType list
     \<Rightarrow> sched_state \<Rightarrow> error + sched_state"
where
  "services_loop rnd volunteers lastWeekVolunteers currentWeekStart [] st = Inr st"
| "services_loop rnd volunteers lastWeekVolunteers currentWeekStart (service # services) st =
     (case functions_loop rnd volunteers lastWeekVolunteers currentWeekStart service
             (neededFunctions service) st of
        Inl e \<Rightarrow> Inl e
      | Inr st' \<Rightarrow> services_loop rnd volunteers lastWeekVolunteers currentWeekStart services st')"

definition initial_state :: sched_state where
  "initial_state = \<lparr>assignments = [], usedThisWeek = Map.empty, warnings = [], draws = 0\<rparr>"

text \<open>
  \<^verbatim>\<open>generateSchedule\<close>, from the roster \<^verbatim>\<open>volunteers\<close>, the answer \<^verbatim>\<open>lastWeekData\<close> of the
  request for last week's schedule and \<^verbatim>\<open>currentWeekStart\<close>, to the \<^verbatim>\<open>assignments\<close> it
  posts and the \<^verbatim>\<open>warnings\<close> it leaves in the component's state.
\<close>

definition generateSchedule ::
  "(nat \<Rightarrow> real) \<Rightarrow> Volunteer list \<Rightarrow> ScheduleAssignment list \<Rightarrow> string
     \<Rightarrow> error + (ScheduleAssignment list \<times> string list)"
where
  "generateSchedule rnd volunteers lastWeekData currentWeekStart =
     (let lastWeekVolunteers = set (map volunteer_id lastWeekData) in
      case services_loop rnd volunteers lastWeekVolunteers currentWeekStart ALL_SERVICES
             initial_state of
        Inl e \<Rightarrow> Inl e
      | Inr st \<Rightarrow> Inr (assignments st, warnings st))"

text \<open>
  The contract of \<^verbatim>\<open>Math.random\<close>: every call returns a Number from 0 inclusive up to but
  not including 1.
\<close>

definition random_contract :: "(nat \<Rightarrow> real) \<Rightarrow> bool" where
  "random_contract rnd = (\<forall>k. is_double (rnd k) \<and> 0 \<le> rnd k \<and> rnd k < 1)"

section \<open>The slots of a week, and the inputs of the scenarios\<close>

definition slot_of :: "ScheduleAssignment \<Rightarrow> ServiceType \<times> RoleFunction" where
  "slot_of a = (service_type a, function_name a)"

text \<open>The pairs the two loops go through, in their order.\<close>

definition needed_slots :: "(ServiceType \<times> RoleFunction) list" where
  "needed_slots =
     concat (map (\<lambda>service. map (Pair service) (neededFunctions service)) ALL_SERVICES)"

text \<open>The roster of scenarios A and B: one volunteer, for Transmision on Domingo.\<close>

definition scenario_volunteer :: Volunteer where
  "scenario_volunteer =
     \<lparr>id_v = 1, name = ''Ana'', functions_v = [Transmision], availability = [Domingo],
      restrictions = [], total_score = 0\<rparr>"

text \<open>Last week's schedule of scenario B, as the server returns a stored row.\<close>

definition scenario_B_lastWeekData :: "ScheduleAssignment list" where
  "scenario_B_lastWeekData =
     [\<lparr>id_a = Some 1, week_start = ''2024-12-30'', service_type = Domingo,
       function_name = Transmision, volunteer_id = Some 1\<rparr>]"

text \<open>A volunteer who coordinates and is free on two services.\<close>

definition coordinator_volunteer :: Volunteer where
  "coordinator_volunteer =
     \<lparr>id_v = 1, name = ''Luis'', functions_v = [Consola, Transmision, Coordinacion],
      availability = [Miercoles, Sabado_Manana], restrictions = [], total_score = 0\<rparr>"

text \<open>Three volunteers for Transmision on Domingo, with ids 1, 2 and 3.\<close>

definition transmission_team :: "Volunteer list" where
  "transmission_team =
     [scenario_volunteer,
      scenario_volunteer\<lparr>id_v := 2, name := ''Bea''\<rparr>,
      scenario_volunteer\<lparr>id_v := 3, name := ''Carla''\<rparr>]"

section \<open>Rounding to a Number\<close>

lemma round_half_even_upper: "of_int (round_half_even q) \<le> q + 1 / 2"
  unfolding round_half_even_def Let_def by (simp split: if_splits) linarith

lemma round_half_even_nonneg: "0 \<le> q \<Longrightarrow> 0 \<le> round_half_even q"
  by (auto simp: round_half_even_def Let_def)

lemma round_half_even_of_int [simp]: "round_half_even (of_int k) = k"
  by (simp add: round_half_even_def)

lemma binary_round_zero [simp]: "binary_round p emin 0 = 0"
  by (simp add: binary_round_def)

lemma binary_round_nonneg: "0 \<le> x \<Longrightarrow> 0 \<le> binary_round p emin x"
  by (auto simp: binary_round_def Let_def sgn_if intro!: mult_nonneg_nonneg divide_nonneg_nonneg round_half_even_nonneg)

text \<open>The scaled result exceeds the scaled argument by at most half a unit in the last place.\<close>

lemma binary_round_upper:
  assumes "0 < x"
  shows "binary_round p emin x * 2 ^ emin
    \<le> x * 2 ^ emin + 2 ^ nat (bitlen \<lfloor>x * 2 ^ emin\<rfloor> - int p) / 2"
proof -
  define sh where "sh = nat (bitlen \<lfloor>x * 2 ^ emin\<rfloor> - int p)"
  have "of_int (round_half_even (x * 2 ^ emin / 2 ^ sh)) \<le> x * 2 ^ emin / 2 ^ sh + 1 / 2"
    by (rule round_half_even_upper)
  then have "of_int (round_half_even (x * 2 ^ emin / 2 ^ sh)) * 2 ^ sh
      \<le> (x * 2 ^ emin / 2 ^ sh + 1 / 2) * 2 ^ sh"
    by (rule mult_right_mono) simp
  also have "\<dots> = x * 2 ^ emin + 2 ^ sh / 2" by (simp add: field_simps)
  finally show ?thesis using assms
    by (simp add: binary_round_def Let_def sh_def)
qed

text \<open>A value that rounding leaves alone and that is below 1 is at most the last grid point below 1.\<close>

lemma binary_fixed_below_one:
  assumes p: "1 \<le> p" "p \<le> emin" and fixed: "binary_round p emin r = r"
    and r: "0 \<le> r" "r < 1"
  shows "r * 2 ^ emin \<le> 2 ^ emin - 2 ^ (emin - p)"
proof (cases "r = 0")
  case True
  have "(2::real) ^ (emin - p) \<le> 2 ^ emin" by (rule power_increasing) simp_all
  with True show ?thesis by simp
next
  case False
  with r have pos: "0 < r" by simp
  define N where "N = \<lfloor>r * 2 ^ emin\<rfloor>"
  define sh where "sh = nat (bitlen N - int p)"
  define Q where "Q = round_half_even (r * 2 ^ emin / 2 ^ sh)"
  from fixed pos have "r = of_int Q * 2 ^ sh / 2 ^ emin"
    by (simp add: binary_round_def Let_def N_def sh_def Q_def)
  then have X: "r * 2 ^ emin = of_int (Q * 2 ^ sh)" by (simp add: field_simps)
  have N: "N = Q * 2 ^ sh" unfolding N_def X by (rule floor_of_int)
  from X N have XN: "r * 2 ^ emin = of_int N" by simp
  from r(2) have "r * 2 ^ emin < 1 * 2 ^ emin" by (intro mult_strict_right_mono) simp_all
  with XN have "real_of_int N < of_int (2 ^ emin)" by simp
  then have less: "N < 2 ^ emin" by (simp only: of_int_less_iff)
  then have b_le: "bitlen N \<le> int emin" by (simp add: bitlen_le_iff_power)
  have step: "(2::int) ^ (emin - p) \<le> 2 ^ (emin - 1)"
    using p by (intro power_increasing) simp_all
  have twice: "(2::int) ^ (emin - 1) + 2 ^ (emin - 1) = 2 ^ emin"
    using p by (cases emin) simp_all
  have "N + 2 ^ (emin - p) \<le> 2 ^ emin"
  proof (cases "bitlen N = int emin")
    case True
    with p have sh: "sh = emin - p" by (simp add: sh_def nat_diff_distrib)
    have split: "(2::int) ^ emin = 2 ^ p * 2 ^ (emin - p)"
      using p by (simp flip: power_add)
    from less N sh split have "Q * 2 ^ (emin - p) < 2 ^ p * 2 ^ (emin - p)" by simp
    then have "Q < 2 ^ p" by (simp add: mult_less_cancel_right)
    then have "Q + 1 \<le> 2 ^ p" by simp
    then have "(Q + 1) * 2 ^ (emin - p) \<le> 2 ^ p * 2 ^ (emin - p)"
      by (rule mult_right_mono) simp
    with N sh split show ?thesis by (simp add: algebra_simps)
  next
    case False
    with b_le have "bitlen N \<le> int emin - 1" by simp
    then have "N < 2 ^ nat (int emin - 1)"
      using bitlen_le_iff_power [of N "int emin - 1"] by blast
    moreover have "nat (int emin - 1) = emin - 1" by simp
    ultimately have "N < 2 ^ (emin - 1)" by simp
    with step twice show ?thesis by linarith
  qed
  then have "real_of_int (N + 2 ^ (emin - p)) \<le> of_int (2 ^ emin)"
    by (simp only: of_int_le_iff)
  with XN show ?thesis by simp
qed

text \<open>Such a value times a positive integer rounds to less than the integer.\<close>

lemma binary_round_product_below:
  assumes p: "1 \<le> p" "p \<le> emin" and r: "0 \<le> r"
    and top: "r * 2 ^ emin \<le> 2 ^ emin - 2 ^ (emin - p)" and n: "0 < n"
  shows "binary_round p emin (r * real n) < real n"
proof (cases "r = 0")
  case True
  with n show ?thesis by simp
next
  case False
  with r n have x: "0 < r * real n" by simp
  define u :: real where "u = 2 ^ (emin - p)"
  define c :: real where "c = 2 ^ p"
  define X where "X = r * real n * 2 ^ emin"
  define sh where "sh = nat (bitlen \<lfloor>X\<rfloor> - int p)"
  have S: "(2::real) ^ emin = c * u" using p by (simp add: c_def u_def flip: power_add)
  have u: "1 \<le> u" by (simp add: u_def)
  have c: "2 \<le> c" using p power_increasing [of 1 p "2::real"] by (simp add: c_def)
  from n have n1: "1 \<le> real n" by simp
  have Xle: "X \<le> (c * u - u) * real n"
  proof -
    from top have "r * 2 ^ emin * real n \<le> (2 ^ emin - 2 ^ (emin - p)) * real n"
      by (rule mult_right_mono) simp
    then show ?thesis by (simp add: X_def S u_def mult_ac)
  qed
  from binary_round_upper [OF x, of p emin]
  have up: "binary_round p emin (r * real n) * (c * u) \<le> X + 2 ^ sh / 2"
    by (simp add: X_def sh_def S)
  have "X + 2 ^ sh / 2 < c * u * real n"
  proof (cases "sh = 0")
    case True
    from u n1 have "1 \<le> u * real n" using mult_mono [of 1 u 1 "real n"] by simp
    with Xle True show ?thesis by (simp add: algebra_simps)
  next
    case False
    then have b: "bitlen \<lfloor>X\<rfloor> = int p + int sh" by (simp add: sh_def)
    with p have "0 < bitlen \<lfloor>X\<rfloor>" by simp
    then have "0 < \<lfloor>X\<rfloor>" using bitlen_eq_zero_iff [of "\<lfloor>X\<rfloor>"] by linarith
    from bitlen_bounds [OF this] have "2 ^ nat (bitlen \<lfloor>X\<rfloor> - 1) \<le> \<lfloor>X\<rfloor>" by simp
    moreover from b False have "nat (bitlen \<lfloor>X\<rfloor> - 1) = p + (sh - 1)"
      by (simp add: nat_add_distrib nat_diff_distrib)
    ultimately have "(2::int) ^ (p + (sh - 1)) \<le> \<lfloor>X\<rfloor>" by simp
    then have "real_of_int (2 ^ (p + (sh - 1))) \<le> of_int \<lfloor>X\<rfloor>" by (simp only: of_int_le_iff)
    also have "\<dots> \<le> X" by simp
    finally have "c * 2 ^ (sh - 1) \<le> X" by (simp add: c_def power_add)
    moreover from False have "(2::real) ^ sh / 2 = 2 ^ (sh - 1)" by (cases sh) simp_all
    ultimately have half: "c * (2 ^ sh / 2) \<le> X" by simp
    have cpos: "0 < c" using c by simp
    have "c * (X + 2 ^ sh / 2) \<le> c * X + X" using half by (simp add: algebra_simps)
    also have "\<dots> = (c + 1) * X" by (simp add: algebra_simps)
    also have "\<dots> \<le> (c + 1) * ((c * u - u) * real n)"
      using Xle c by (intro mult_left_mono) simp_all
    also have "\<dots> = (c * c - 1) * (u * real n)" by (simp add: algebra_simps)
    also have "\<dots> < (c * c) * (u * real n)"
      using u n1 by (intro mult_strict_right_mono) (simp_all add: mult_pos_pos)
    also have "\<dots> = c * (c * u * real n)" by simp
    finally show ?thesis using cpos by (simp only: mult_less_cancel_left_pos)
  qed
  with up have "binary_round p emin (r * real n) * (c * u) < real n * (c * u)"
    by (simp add: mult_ac)
  moreover have "0 < c * u" using c u by (simp add: mult_pos_pos)
  ultimately show ?thesis by (simp only: mult_less_cancel_right_pos)
qed

lemma double_round_product:
  assumes "is_double r" "0 \<le> r" "r < 1" "0 < n"
  shows "0 \<le> double_round (r * real n)" and "double_round (r * real n) < real n"
proof -
  from assms(2) show "0 \<le> double_round (r * real n)"
    unfolding double_round_def by (intro binary_round_nonneg) simp
  from assms(1) have fixed: "binary_round 53 1074 r = r"
    by (simp add: is_double_def double_round_def)
  have top: "r * 2 ^ 1074 \<le> 2 ^ 1074 - 2 ^ (1074 - 53)"
    by (rule binary_fixed_below_one [OF _ _ fixed assms(2,3)]) simp_all
  show "double_round (r * real n) < real n"
    unfolding double_round_def
    by (rule binary_round_product_below [OF _ _ assms(2) top assms(4)]) simp_all
qed

lemma scaled_quotient:
  assumes "k \<le> emin"
  shows "real_of_int m / 2 ^ k * 2 ^ emin = of_int (m * 2 ^ (emin - k))"
proof -
  from assms have "(2::real) ^ emin = 2 ^ (emin - k) * 2 ^ k" by (simp flip: power_add)
  then show ?thesis by simp
qed

text \<open>A quotient with a numerator of at most \<open>p\<close> bits is left alone.\<close>

lemma binary_round_exact:
  assumes "0 \<le> m" "m < 2 ^ p" "k \<le> emin"
  shows "binary_round p emin (of_int m / 2 ^ k) = of_int m / 2 ^ k"
proof (cases "m = 0")
  case True
  then show ?thesis by simp
next
  case False
  with assms(1) have m: "0 < m" by simp
  define j where "j = emin - k"
  define sh where "sh = nat (bitlen (m * 2 ^ j) - int p)"
  from assms(2) have "bitlen m \<le> int p" by (simp add: bitlen_le_iff_power)
  with m have sh: "sh \<le> j" by (simp add: sh_def)
  have x: "0 < real_of_int m / 2 ^ k" using m by simp
  have scaled: "\<bar>real_of_int m / 2 ^ k\<bar> * 2 ^ emin = of_int (m * 2 ^ j)"
    unfolding abs_of_pos [OF x] j_def by (rule scaled_quotient [OF assms(3)])
  have "real_of_int (m * 2 ^ j) / 2 ^ sh = of_int (m * 2 ^ (j - sh))"
  proof -
    from sh have "(2::real) ^ j = 2 ^ (j - sh) * 2 ^ sh" by (simp flip: power_add)
    then show ?thesis by simp
  qed
  then have q: "round_half_even (real_of_int (m * 2 ^ j) / 2 ^ sh) = m * 2 ^ (j - sh)"
    by (simp only: round_half_even_of_int)
  have "binary_round p emin (of_int m / 2 ^ k)
      = of_int (m * 2 ^ (j - sh)) * 2 ^ sh / 2 ^ emin"
    unfolding binary_round_def Let_def scaled floor_of_int sh_def [symmetric] q sgn_pos [OF x]
    by simp
  also have "\<dots> = of_int (m * 2 ^ j) / 2 ^ emin"
  proof -
    from sh have "(2::real) ^ j = 2 ^ (j - sh) * 2 ^ sh" by (simp flip: power_add)
    then show ?thesis by simp
  qed
  also have "\<dots> = of_int m / 2 ^ k"
    unfolding j_def scaled_quotient [OF assms(3), symmetric] by simp
  finally show ?thesis .
qed

text \<open>A numerator of \<open>p + d\<close> bits is rounded to a multiple of \<open>2 ^ d\<close>.\<close>

lemma binary_round_quotient:
  assumes "2 ^ (p + d - 1) \<le> m" "m < 2 ^ (p + d)" "1 \<le> p" "k \<le> emin"
  shows "binary_round p emin (of_int m / 2 ^ k)
    = of_int (round_half_even (of_int m / 2 ^ d)) * 2 ^ d / 2 ^ k"
proof -
  define j where "j = emin - k"
  have "(0::int) < 2 ^ (p + d - 1)" by simp
  with assms(1) have m: "0 < m" by linarith
  have "bitlen m \<le> int (p + d)"
    using assms(2) by (simp add: bitlen_le_iff_power nat_int_add)
  moreover have "int (p + d) \<le> bitlen m"
    using assms(1) by (simp add: bitlen_ge_iff_power nat_int_add)
  ultimately have b: "bitlen m = int (p + d)" by simp
  have x: "0 < real_of_int m / 2 ^ k" using m by simp
  have scaled: "\<bar>real_of_int m / 2 ^ k\<bar> * 2 ^ emin = of_int (m * 2 ^ j)"
    unfolding abs_of_pos [OF x] j_def by (rule scaled_quotient [OF assms(4)])
  have sh: "nat (bitlen (m * 2 ^ j) - int p) = d + j" using m b by simp
  have inner: "real_of_int (m * 2 ^ j) / 2 ^ (d + j) = of_int m / 2 ^ d"
    by (simp add: power_add)
  have "binary_round p emin (of_int m / 2 ^ k)
      = of_int (round_half_even (of_int m / 2 ^ d)) * 2 ^ (d + j) / 2 ^ emin"
    unfolding binary_round_def Let_def scaled floor_of_int sh inner sgn_pos [OF x]
    by simp
  also have "\<dots> = of_int (round_half_even (of_int m / 2 ^ d)) * 2 ^ d / 2 ^ k"
  proof -
    from assms(4) have "(2::real) ^ emin = 2 ^ j * 2 ^ k" by (simp add: j_def flip: power_add)
    then show ?thesis by (simp add: power_add)
  qed
  finally show ?thesis .
qed

lemma is_double_quotient:
  assumes "0 \<le> m" "m < 2 ^ 53" "k \<le> 1074"
  shows "is_double (of_int m / 2 ^ k)"
  unfolding is_double_def double_round_def using assms by (rule binary_round_exact)

lemma is_double_zero: "is_double 0"
  by (simp add: is_double_def double_round_def)

lemma is_double_half: "is_double (1 / 2)"
  using is_double_quotient [of 1 1] by simp

lemma is_double_two_thirds: "is_double (6004799503160661 / 2 ^ 53)"
  using is_double_quotient [of 6004799503160661 53] by simp

lemma double_round_one: "double_round 1 = 1"
  using binary_round_exact [of 1 53 0 1074] by (simp add: double_round_def)

lemma double_round_two_thirds_times_three:
  "double_round (6004799503160661 / 2 ^ 53 * 3) = 2"
proof -
  have "double_round (of_int 18014398509481983 / 2 ^ 53)
      = of_int (round_half_even (of_int 18014398509481983 / 2 ^ 1)) * 2 ^ 1 / 2 ^ 53"
    unfolding double_round_def by (rule binary_round_quotient) simp_all
  also have "round_half_even (of_int 18014398509481983 / 2 ^ 1) = 9007199254740992"
    by (simp add: round_half_even_def)
  finally show ?thesis by simp
qed

lemma double_round_zero [simp]: "double_round 0 = 0"
  by (simp add: double_round_def)

lemma random_contract_zero: "random_contract (\<lambda>_. 0)"
  by (simp add: random_contract_def is_double_zero)

lemma random_contract_half: "random_contract (\<lambda>_. 1 / 2)"
  by (simp add: random_contract_def is_double_half)

lemma random_contractD:
  assumes "random_contract rnd"
  shows "is_double (rnd k)" and "0 \<le> rnd k" and "rnd k < 1"
  using assms by (simp_all add: random_contract_def)

lemma random_index_two_thirds:
  "random_index (6004799503160661 / 2 ^ 53) [a, b, c] = 2"
  using double_round_two_thirds_times_three by (simp add: random_index_def)

lemma random_contract_two_thirds: "random_contract (\<lambda>_. 6004799503160661 / 2 ^ 53)"
  using is_double_two_thirds by (simp add: random_contract_def)

section \<open>Basic facts about one step and about the loops\<close>

lemma random_index_bounds:
  assumes "is_double r" "0 \<le> r" "r < 1" "candidates \<noteq> []"
  shows "0 \<le> random_index r candidates \<and> random_index r candidates < int (length candidates)"
proof -
  from assms(4) have pos: "0 < length candidates" by simp
  note p = double_round_product [OF assms(1,2,3) pos]
  from p(1) have lo: "0 \<le> random_index r candidates" by (simp add: random_index_def)
  from p(2) have "double_round (r * real (length candidates)) < of_int (int (length candidates))"
    by simp
  then have "random_index r candidates < int (length candidates)"
    unfolding random_index_def by (simp only: floor_less_iff)
  with lo show ?thesis by simp
qed

lemma element_at_Some: "element_at xs i = Some x \<Longrightarrow> x \<in> set xs"
  by (auto simp: element_at_def split: if_splits)

lemma element_at_in_range:
  "0 \<le> i \<Longrightarrow> i < int (length xs) \<Longrightarrow> \<exists>x. element_at xs i = Some x"
  by (simp add: element_at_def)

lemma slot_step_cases:
  assumes "slot_step rnd volunteers lwv wk service role st = Inr st'"
  obtains
    (preferred) v where
      "v \<in> set (strict_candidates volunteers lwv (usedThisWeek st) service role)"
      "assignments st' = assignments st @ [new_assignment wk service role (Some (id_v v))]"
      "usedThisWeek st' = (usedThisWeek st)(id_v v \<mapsto>
          insert role (rolesUsed_of (usedThisWeek st) (id_v v)))"
      "warnings st' = warnings st"
  | (fallback) v where
      "strict_candidates volunteers lwv (usedThisWeek st) service role = []"
      "v \<in> set (relaxed_candidates volunteers (usedThisWeek st) service role)"
      "assignments st' = assignments st @ [new_assignment wk service role (Some (id_v v))]"
      "usedThisWeek st' = (usedThisWeek st)(id_v v \<mapsto>
          insert role (rolesUsed_of (usedThisWeek st) (id_v v)))"
      "warnings st' = warnings st @ [relaxed_warning role service]"
  | (vacant)
      "strict_candidates volunteers lwv (usedThisWeek st) service role = []"
      "relaxed_candidates volunteers (usedThisWeek st) service role = []"
      "assignments st' = assignments st @ [new_assignment wk service role None]"
      "usedThisWeek st' = usedThisWeek st"
      "warnings st' = warnings st @ [vacancy_warning role service]"
proof (cases "strict_candidates volunteers lwv (usedThisWeek st) service role = []")
  case False
  with assms obtain v where
    "element_at (strict_candidates volunteers lwv (usedThisWeek st) service role)
       (random_index (rnd (draws st))
          (strict_candidates volunteers lwv (usedThisWeek st) service role)) = Some v"
    and "st' = st\<lparr>assignments := assignments st
                   @ [new_assignment wk service role (Some (id_v v))],
                 usedThisWeek := (usedThisWeek st)(id_v v \<mapsto>
                   insert role (rolesUsed_of (usedThisWeek st) (id_v v))),
                 draws := Suc (draws st)\<rparr>"
    by (auto simp: slot_step_def Let_def split: option.splits)
  then show thesis using preferred [of v] by (simp add: element_at_Some)
next
  case strict: True
  show thesis
  proof (cases "relaxed_candidates volunteers (usedThisWeek st) service role = []")
    case True
    with strict assms show thesis using vacant by (auto simp: slot_step_def Let_def)
  next
    case False
    with strict assms obtain v where
      "element_at (relaxed_candidates volunteers (usedThisWeek st) service role)
         (random_index (rnd (draws st))
            (relaxed_candidates volunteers (usedThisWeek st) service role)) = Some v"
      and "st' = st\<lparr>warnings := warnings st @ [relaxed_warning role service],
                   assignments := assignments st
                     @ [new_assignment wk service role (Some (id_v v))],
                   usedThisWeek := (usedThisWeek st)(id_v v \<mapsto>
                     insert role (rolesUsed_of (usedThisWeek st) (id_v v))),
                   draws := Suc (draws st)\<rparr>"
      by (auto simp: slot_step_def Let_def split: option.splits)
    then show thesis using fallback [of v] strict by (simp add: element_at_Some)
  qed
qed

lemma slot_step_total:
  assumes "random_contract rnd"
  shows "\<exists>st'. slot_step rnd volunteers lwv wk service role st = Inr st'"
proof -
  have pick: "\<exists>x. element_at cs (random_index (rnd k) cs) = Some x"
    if "cs \<noteq> []" for cs :: "Volunteer list" and k
  proof -
    note r = random_contractD [OF assms, of k]
    from random_index_bounds [OF r that] show ?thesis
      by (simp add: element_at_in_range)
  qed
  show ?thesis
  proof (cases "strict_candidates volunteers lwv (usedThisWeek st) service role = []")
    case False
    from pick [OF False, of "draws st"] show ?thesis using False
      by (auto simp: slot_step_def Let_def)
  next
    case strict: True
    show ?thesis
    proof (cases "relaxed_candidates volunteers (usedThisWeek st) service role = []")
      case True
      with strict show ?thesis by (simp add: slot_step_def Let_def)
    next
      case False
      from pick [OF False, of "draws st"] show ?thesis using False strict
        by (auto simp: slot_step_def Let_def)
    qed
  qed
qed

lemma slot_step_warnings:
  assumes "slot_step rnd volunteers lwv wk service role st = Inr st'"
  shows "warnings st' = warnings st @
    (if strict_candidates volunteers lwv (usedThisWeek st) service role \<noteq> [] then []
     else if relaxed_candidates volunteers (usedThisWeek st) service role \<noteq> []
       then [relaxed_warning role service]
     else [vacancy_warning role service])"
  using assms
proof (cases rule: slot_step_cases)
  case (preferred v)
  then show ?thesis by auto
next
  case (fallback v)
  then show ?thesis by auto
next
  case vacant
  then show ?thesis by simp
qed

lemma slot_step_vacant:
  assumes "strict_candidates volunteers lwv (usedThisWeek st) service role = []"
    and "relaxed_candidates volunteers (usedThisWeek st) service role = []"
  shows "slot_step rnd volunteers lwv wk service role st =
    Inr (st\<lparr>assignments := assignments st @ [new_assignment wk service role None],
            warnings := warnings st @ [vacancy_warning role service]\<rparr>)"
  using assms by (simp add: slot_step_def)

lemma functions_loop_total:
  assumes "random_contract rnd"
  shows "\<exists>st'. functions_loop rnd volunteers lwv wk service funcs st = Inr st'"
proof (induction funcs arbitrary: st)
  case Nil
  show ?case by simp
next
  case (Cons func funcs)
  from slot_step_total [OF assms] obtain st1 where
    "slot_step rnd volunteers lwv wk service func st = Inr st1" by blast
  with Cons [of st1] show ?case by simp
qed

lemma services_loop_total:
  assumes "random_contract rnd"
  shows "\<exists>st'. services_loop rnd volunteers lwv wk services st = Inr st'"
proof (induction services arbitrary: st)
  case Nil
  show ?case by simp
next
  case (Cons service services)
  from functions_loop_total [OF assms] obtain st1 where
    "functions_loop rnd volunteers lwv wk service (neededFunctions service) st = Inr st1"
    by blast
  with Cons [of st1] show ?case by simp
qed

lemma generateSchedule_total:
  assumes "random_contract rnd"
  shows "\<exists>as ws. generateSchedule rnd volunteers lastWeekData wk = Inr (as, ws)"
proof -
  from services_loop_total [OF assms] obtain st where
    "services_loop rnd volunteers (set (map volunteer_id lastWeekData)) wk ALL_SERVICES
       initial_state = Inr st" by blast
  then show ?thesis by (simp add: generateSchedule_def)
qed

lemma functions_loop_invariant:
  assumes step: "\<And>func st st'. P st \<Longrightarrow>
      slot_step rnd volunteers lwv wk service func st = Inr st' \<Longrightarrow> P st'"
    and "P st"
    and "functions_loop rnd volunteers lwv wk service funcs st = Inr st'"
  shows "P st'"
  using assms(2,3)
proof (induction funcs arbitrary: st)
  case Nil
  then show ?case by simp
next
  case (Cons func funcs)
  from Cons.prems(2) obtain st1 where
    s1: "slot_step rnd volunteers lwv wk service func st = Inr st1"
    and rest: "functions_loop rnd volunteers lwv wk service funcs st1 = Inr st'"
    by (auto split: sum.splits)
  from step [OF Cons.prems(1) s1] have "P st1" .
  from Cons.IH [OF this rest] show ?case .
qed

lemma services_loop_invariant:
  assumes step: "\<And>service func st st'. P st \<Longrightarrow>
      slot_step rnd volunteers lwv wk service func st = Inr st' \<Longrightarrow> P st'"
    and "P st"
    and "services_loop rnd volunteers lwv wk services st = Inr st'"
  shows "P st'"
  using assms(2,3)
proof (induction services arbitrary: st)
  case Nil
  then show ?case by simp
next
  case (Cons service services)
  from Cons.prems(2) obtain st1 where
    s1: "functions_loop rnd volunteers lwv wk service (neededFunctions service) st = Inr st1"
    and rest: "services_loop rnd volunteers lwv wk services st1 = Inr st'"
    by (auto split: sum.splits)
  have "P st1"
    by (rule functions_loop_invariant [where P = P, OF step Cons.prems(1) s1])
  from Cons.IH [OF this rest] show ?case .
qed

lemma generateSchedule_invariant:
  assumes step: "\<And>service func st st'. P st \<Longrightarrow>
      slot_step rnd volunteers (set (map volunteer_id lastWeekData)) wk service func st = Inr st'
        \<Longrightarrow> P st'"
    and "P initial_state"
    and "generateSchedule rnd volunteers lastWeekData wk = Inr (as, ws)"
  shows "\<exists>st. P st \<and> as = assignments st \<and> ws = warnings st"
proof -
  from assms(3) obtain st where
    run: "services_loop rnd volunteers (set (map volunteer_id lastWeekData)) wk ALL_SERVICES
       initial_state = Inr st"
    and out: "as = assignments st" "ws = warnings st"
    by (auto simp: generateSchedule_def split: sum.splits)
  have "P st"
    by (rule services_loop_invariant [where P = P, OF step assms(2) run])
  with out show ?thesis by blast
qed

section \<open>The warning texts and the two candidate lists\<close>

lemma slot_text_inject:
  "role_text r @ '' en '' @ service_text s = role_text r' @ '' en '' @ service_text s'
     \<Longrightarrow> r = r' \<and> s = s'"
  by (cases r; cases r'; cases s; cases s'; simp)

lemma vacancy_warning_inject:
  "vacancy_warning r s = vacancy_warning r' s' \<Longrightarrow> r = r' \<and> s = s'"
  unfolding vacancy_warning_def by (rule slot_text_inject) simp

lemma relaxed_warning_inject:
  "relaxed_warning r s = relaxed_warning r' s' \<Longrightarrow> r = r' \<and> s = s'"
  unfolding relaxed_warning_def by (rule slot_text_inject) simp

lemma vacancy_not_relaxed: "vacancy_warning r s \<noteq> relaxed_warning r' s'"
  by (simp add: vacancy_warning_def relaxed_warning_def)

lemma vacancy_warning_eq_iff:
  "vacancy_warning r s = vacancy_warning r' s' \<longleftrightarrow> r = r' \<and> s = s'"
  using vacancy_warning_inject [of r s r' s'] by blast

lemma relaxed_warning_eq_iff:
  "relaxed_warning r s = relaxed_warning r' s' \<longleftrightarrow> r = r' \<and> s = s'"
  using relaxed_warning_inject [of r s r' s'] by blast

lemma strict_candidates_iff:
  "v \<in> set (strict_candidates volunteers lwv used service role) \<longleftrightarrow>
     v \<in> set volunteers \<and> service \<in> set (availability v) \<and> role \<in> set (functions_v v)
     \<and> Some (id_v v) \<notin> lwv
     \<and> (rolesUsed_of used (id_v v) = {} \<or> role = Coordinacion
          \<or> Coordinacion \<in> rolesUsed_of used (id_v v))"
  by (auto simp: strict_candidates_def strict_filter_def Let_def)

lemma relaxed_candidates_iff:
  "v \<in> set (relaxed_candidates volunteers used service role) \<longleftrightarrow>
     v \<in> set volunteers \<and> service \<in> set (availability v)
     \<and> (rolesUsed_of used (id_v v) = {} \<or> role = Coordinacion
          \<or> Coordinacion \<in> rolesUsed_of used (id_v v))"
  by (auto simp: relaxed_candidates_def relaxed_filter_def Let_def)

section \<open>The runs of the scenarios\<close>

lemma random_index_single:
  assumes "is_double r" "0 \<le> r" "r < 1"
  shows "random_index r [x] = 0"
  using random_index_bounds [OF assms, of "[x]"] by simp

lemma needed_slots_eq:
  "needed_slots =
     [(Domingo, Transmision),
      (Miercoles, Consola), (Miercoles, Transmision), (Miercoles, Proyeccion),
      (Miercoles, Medios_Digitales), (Miercoles, Coordinacion),
      (Sabado_Manana, Consola), (Sabado_Manana, Transmision), (Sabado_Manana, Proyeccion),
      (Sabado_Manana, Medios_Digitales), (Sabado_Manana, Coordinacion),
      (Sabado_Tarde, Consola), (Sabado_Tarde, Transmision), (Sabado_Tarde, Proyeccion),
      (Sabado_Tarde, Medios_Digitales), (Sabado_Tarde, Coordinacion)]"
  by (simp add: needed_slots_def ALL_SERVICES_def ALL_FUNCTIONS_def neededFunctions_def)

lemmas run_defs =
  generateSchedule_def ALL_SERVICES_def ALL_FUNCTIONS_def neededFunctions_def
  initial_state_def slot_step_def strict_candidates_def relaxed_candidates_def
  strict_filter_def relaxed_filter_def rolesUsed_of_def element_at_def Let_def

lemma scenario_A_output:
  assumes "random_contract rnd"
  shows "generateSchedule rnd [scenario_volunteer] [] wk =
    Inr (new_assignment wk Domingo Transmision (Some 1)
           # map (\<lambda>(service, role). new_assignment wk service role None) (tl needed_slots),
         map (\<lambda>(service, role). vacancy_warning role service) (tl needed_slots))"
proof -
  note r = random_contractD [OF assms, of 0]
  show ?thesis
    by (simp add: run_defs scenario_volunteer_def needed_slots_eq random_index_single [OF r])
qed

lemma scenario_B_output:
  assumes "random_contract rnd"
  shows "generateSchedule rnd [scenario_volunteer] scenario_B_lastWeekData wk =
    Inr (new_assignment wk Domingo Transmision (Some 1)
           # map (\<lambda>(service, role). new_assignment wk service role None) (tl needed_slots),
         relaxed_warning Transmision Domingo
           # map (\<lambda>(service, role). vacancy_warning role service) (tl needed_slots))"
proof -
  note r = random_contractD [OF assms, of 0]
  show ?thesis
    by (simp add: run_defs scenario_volunteer_def scenario_B_lastWeekData_def needed_slots_eq
          random_index_single [OF r])
qed

lemma coordinator_output:
  "generateSchedule (\<lambda>_. 0) [coordinator_volunteer] [] wk =
    Inr (map (\<lambda>((service, role), vol). new_assignment wk service role vol)
           (zip needed_slots
              [None,
               Some 1, None, None, None, Some 1,
               Some 1, Some 1, Some 1, Some 1, Some 1,
               None, None, None, None, None]),
         [vacancy_warning Transmision Domingo,
          vacancy_warning Transmision Miercoles, vacancy_warning Proyeccion Miercoles,
          vacancy_warning Medios_Digitales Miercoles,
          relaxed_warning Proyeccion Sabado_Manana,
          relaxed_warning Medios_Digitales Sabado_Manana,
          vacancy_warning Consola Sabado_Tarde, vacancy_warning Transmision Sabado_Tarde,
          vacancy_warning Proyeccion Sabado_Tarde,
          vacancy_warning Medios_Digitales Sabado_Tarde,
          vacancy_warning Coordinacion Sabado_Tarde])"
  by (simp add: run_defs coordinator_volunteer_def needed_slots_eq random_index_def)

lemma transmission_team_output:
  "generateSchedule (\<lambda>_. 6004799503160661 / 2 ^ 53) transmission_team [] wk =
    Inr (new_assignment wk Domingo Transmision (Some 3)
           # map (\<lambda>(service, role). new_assignment wk service role None) (tl needed_slots),
         map (\<lambda>(service, role). vacancy_warning role service) (tl needed_slots))"
  by (simp add: run_defs transmission_team_def scenario_volunteer_def needed_slots_eq
      random_index_two_thirds del: power_numeral)

section \<open>Invariants of a run\<close>

lemma slot_step_slots:
  assumes "slot_step rnd volunteers lwv wk service role st = Inr st'"
  shows "\<exists>vol. assignments st' = assignments st @ [new_assignment wk service role vol]"
  using assms by (cases rule: slot_step_cases) auto

lemma functions_loop_slots:
  assumes "functions_loop rnd volunteers lwv wk service funcs st = Inr st'"
  shows "map slot_of (assignments st') = map slot_of (assignments st) @ map (Pair service) funcs
    \<and> (\<forall>a\<in>set (assignments st'). a \<in> set (assignments st) \<or> week_start a = wk)"
  using assms
proof (induction funcs arbitrary: st)
  case Nil
  then show ?case by simp
next
  case (Cons func funcs)
  from Cons.prems obtain st1 where
    s1: "slot_step rnd volunteers lwv wk service func st = Inr st1"
    and rest: "functions_loop rnd volunteers lwv wk service funcs st1 = Inr st'"
    by (auto split: sum.splits)
  from slot_step_slots [OF s1] obtain vol where
    a1: "assignments st1 = assignments st @ [new_assignment wk service func vol]" by blast
  from Cons.IH [OF rest] a1 show ?case
    by (auto simp: slot_of_def new_assignment_def)
qed

lemma services_loop_slots:
  assumes "services_loop rnd volunteers lwv wk services st = Inr st'"
  shows "map slot_of (assignments st') = map slot_of (assignments st)
      @ concat (map (\<lambda>service. map (Pair service) (neededFunctions service)) services)
    \<and> (\<forall>a\<in>set (assignments st'). a \<in> set (assignments st) \<or> week_start a = wk)"
  using assms
proof (induction services arbitrary: st)
  case Nil
  then show ?case by simp
next
  case (Cons service services)
  from Cons.prems obtain st1 where
    s1: "functions_loop rnd volunteers lwv wk service (neededFunctions service) st = Inr st1"
    and rest: "services_loop rnd volunteers lwv wk services st1 = Inr st'"
    by (auto split: sum.splits)
  from functions_loop_slots [OF s1] Cons.IH [OF rest] show ?case by auto
qed

lemma generateSchedule_slots:
  assumes "generateSchedule rnd volunteers lastWeekData wk = Inr (as, ws)"
  shows "map slot_of as = needed_slots" and "\<forall>a\<in>set as. week_start a = wk"
proof -
  from assms obtain st where
    run: "services_loop rnd volunteers (set (map volunteer_id lastWeekData)) wk ALL_SERVICES
       initial_state = Inr st"
    and out: "as = assignments st"
    by (auto simp: generateSchedule_def split: sum.splits)
  from services_loop_slots [OF run] out
  show "map slot_of as = needed_slots" and "\<forall>a\<in>set as. week_start a = wk"
    by (simp_all add: needed_slots_def initial_state_def)
qed

lemma needed_slots_distinct: "distinct needed_slots"
  by (simp add: needed_slots_eq)

lemma needed_slots_iff: "(s, r) \<in> set needed_slots \<longleftrightarrow> (s = Domingo \<longrightarrow> r = Transmision)"
  by (cases s; cases r; simp add: needed_slots_eq)

text \<open>Who is assigned was a candidate: available, and preferred or announced.\<close>

lemma generateSchedule_assigned:
  assumes "generateSchedule rnd volunteers lastWeekData wk = Inr (as, ws)"
    and "a \<in> set as" and "volunteer_id a = Some i"
  shows "\<exists>v\<in>set volunteers. id_v v = i \<and> service_type a \<in> set (availability v)
    \<and> (function_name a \<in> set (functions_v v)
        \<or> relaxed_warning (function_name a) (service_type a) \<in> set ws)"
proof -
  define P where "P st \<longleftrightarrow> (\<forall>a\<in>set (assignments st). \<forall>i. volunteer_id a = Some i \<longrightarrow>
    (\<exists>v\<in>set volunteers. id_v v = i \<and> service_type a \<in> set (availability v)
      \<and> (function_name a \<in> set (functions_v v)
          \<or> relaxed_warning (function_name a) (service_type a) \<in> set (warnings st))))"
    for st :: sched_state
  have init: "P initial_state" by (simp add: P_def initial_state_def)
  have step: "P st'"
    if "P st"
      and "slot_step rnd volunteers (set (map volunteer_id lastWeekData)) wk service func st
            = Inr st'"
    for service func st st'
    using that(2)
  proof (cases rule: slot_step_cases)
    case (preferred v)
    from preferred(1) have "v \<in> set volunteers" "service \<in> set (availability v)"
      "func \<in> set (functions_v v)" by (simp_all add: strict_candidates_iff)
    with \<open>P st\<close> preferred(2,4) show ?thesis
      unfolding P_def by (auto simp: new_assignment_def)
  next
    case (fallback v)
    from fallback(2) have "v \<in> set volunteers" "service \<in> set (availability v)"
      by (simp_all add: relaxed_candidates_iff)
    with \<open>P st\<close> fallback(3,5) show ?thesis
      unfolding P_def by (fastforce simp: new_assignment_def)
  next
    case vacant
    with \<open>P st\<close> show ?thesis
      unfolding P_def by (fastforce simp: new_assignment_def)
  qed
  have "\<exists>st. P st \<and> as = assignments st \<and> ws = warnings st"
    using init assms(1)
    by (rule generateSchedule_invariant [where P = P, rotated]) (rule step, assumption+)
  then obtain st where "P st" "as = assignments st" "ws = warnings st" by blast
  with assms(2,3) show ?thesis unfolding P_def by blast
qed

text \<open>A vacancy warning is in the list exactly for the slots recorded as vacant.\<close>

lemma generateSchedule_vacancies:
  assumes "generateSchedule rnd volunteers lastWeekData wk = Inr (as, ws)"
  shows "vacancy_warning r s \<in> set ws \<longleftrightarrow>
    (\<exists>a\<in>set as. service_type a = s \<and> function_name a = r \<and> volunteer_id a = None)"
proof -
  define V where "V st \<longleftrightarrow> (\<forall>r s. vacancy_warning r s \<in> set (warnings st) \<longleftrightarrow>
    (\<exists>a\<in>set (assignments st).
        service_type a = s \<and> function_name a = r \<and> volunteer_id a = None))"
    for st :: sched_state
  have init: "V initial_state" by (simp add: V_def initial_state_def)
  have step: "V st'"
    if "V st"
      and "slot_step rnd volunteers (set (map volunteer_id lastWeekData)) wk service func st
            = Inr st'"
    for service func st st'
    using that(2)
  proof (cases rule: slot_step_cases)
    case (preferred v)
    with \<open>V st\<close> show ?thesis
      unfolding V_def by (simp add: new_assignment_def)
  next
    case (fallback v)
    with \<open>V st\<close> show ?thesis
      unfolding V_def by (simp add: new_assignment_def vacancy_not_relaxed)
  next
    case vacant
    have "vacancy_warning r s = vacancy_warning func service \<longleftrightarrow> s = service \<and> r = func"
      for r s
      using vacancy_warning_inject [of r s func service] by blast
    with \<open>V st\<close> vacant(3,5) show ?thesis
      unfolding V_def by (auto simp: new_assignment_def)
  qed
  have "\<exists>st. V st \<and> as = assignments st \<and> ws = warnings st"
    using init assms
    by (rule generateSchedule_invariant [where P = V, rotated]) (rule step, assumption+)
  then show ?thesis unfolding V_def by blast
qed



lemma functions_loop_append:
  "functions_loop rnd volunteers lwv wk service (xs @ ys) st =
     (case functions_loop rnd volunteers lwv wk service xs st of
        Inl e \<Rightarrow> Inl e
      | Inr st' \<Rightarrow> functions_loop rnd volunteers lwv wk service ys st')"
  by (induction xs arbitrary: st) (auto split: sum.splits)

lemma services_loop_append:
  "services_loop rnd volunteers lwv wk (xs @ ys) st =
     (case services_loop rnd volunteers lwv wk xs st of
        Inl e \<Rightarrow> Inl e
      | Inr st' \<Rightarrow> services_loop rnd volunteers lwv wk ys st')"
  by (induction xs arbitrary: st) (auto split: sum.splits)

text \<open>
  The run of \<open>generateSchedule\<close> reaches every needed slot in a state of this kind: after
  the outer loop has done the services before it and the inner loop the roles before it.
\<close>

lemma generateSchedule_reaches_slot:
  assumes run: "generateSchedule rnd volunteers lastWeekData wk = Inr (as, ws)"
    and services: "ALL_SERVICES = services_done @ service # services_todo"
    and funcs: "neededFunctions service = funcs_done @ role # funcs_todo"
  shows "\<exists>st0 st st'.
      services_loop rnd volunteers (set (map volunteer_id lastWeekData)) wk services_done
        initial_state = Inr st0
    \<and> functions_loop rnd volunteers (set (map volunteer_id lastWeekData)) wk service funcs_done
        st0 = Inr st
    \<and> slot_step rnd volunteers (set (map volunteer_id lastWeekData)) wk service role st = Inr st'"
proof -
  let ?lwv = "set (map volunteer_id lastWeekData)"
  from run obtain final where
    "services_loop rnd volunteers ?lwv wk ALL_SERVICES initial_state = Inr final"
    by (auto simp: generateSchedule_def split: sum.splits)
  then obtain st0 where
    s0: "services_loop rnd volunteers ?lwv wk services_done initial_state = Inr st0"
    and rest: "services_loop rnd volunteers ?lwv wk (service # services_todo) st0 = Inr final"
    unfolding services services_loop_append by (auto split: sum.splits)
  from rest obtain st1 where
    "functions_loop rnd volunteers ?lwv wk service (neededFunctions service) st0 = Inr st1"
    by (auto split: sum.splits)
  then obtain st where
    s: "functions_loop rnd volunteers ?lwv wk service funcs_done st0 = Inr st"
    and rest': "functions_loop rnd volunteers ?lwv wk service (role # funcs_todo) st = Inr st1"
    unfolding funcs functions_loop_append by (auto split: sum.splits)
  from rest' obtain st' where
    "slot_step rnd volunteers ?lwv wk service role st = Inr st'"
    by (auto split: sum.splits)
  with s0 s show ?thesis by blast
qed

section \<open>Properties of generateSchedule\<close>

text \<open>
  Claim C1, at scenario B. Volunteer 1 is among last week's volunteers; the first
  candidate list for Transmision on Domingo is therefore empty, but the fallback list,
  whose filter has no test on last week's volunteers, contains volunteer 1, and the
  output assigns the slot to volunteer 1.
\<close>

theorem recently_served_volunteer_reassigned:
  "Some 1 \<in> set (map volunteer_id scenario_B_lastWeekData)
   \<and> strict_candidates [scenario_volunteer] (set (map volunteer_id scenario_B_lastWeekData))
        (usedThisWeek initial_state) Domingo Transmision = []
   \<and> relaxed_candidates [scenario_volunteer] (usedThisWeek initial_state)
        Domingo Transmision = [scenario_volunteer]
   \<and> (\<exists>as ws. generateSchedule (\<lambda>_. 1 / 2) [scenario_volunteer] scenario_B_lastWeekData
          ''2025-01-06'' = Inr (as, ws)
        \<and> new_assignment ''2025-01-06'' Domingo Transmision (Some 1) \<in> set as)"
proof -
  have h: "random_contract (\<lambda>_. 1 / 2)" by (rule random_contract_half)
  have l: "Some 1 \<in> set (map volunteer_id scenario_B_lastWeekData)"
    by (simp add: scenario_B_lastWeekData_def)
  have s: "strict_candidates [scenario_volunteer]
      (set (map volunteer_id scenario_B_lastWeekData))
      (usedThisWeek initial_state) Domingo Transmision = []"
    by (simp add: strict_candidates_def strict_filter_def scenario_volunteer_def
        scenario_B_lastWeekData_def)
  have r: "relaxed_candidates [scenario_volunteer] (usedThisWeek initial_state)
      Domingo Transmision = [scenario_volunteer]"
    by (simp add: relaxed_candidates_def relaxed_filter_def scenario_volunteer_def
        initial_state_def rolesUsed_of_def)
  have "\<exists>as ws. generateSchedule (\<lambda>_. 1 / 2) [scenario_volunteer] scenario_B_lastWeekData
          ''2025-01-06'' = Inr (as, ws)
        \<and> new_assignment ''2025-01-06'' Domingo Transmision (Some 1) \<in> set as"
    unfolding scenario_B_output [OF h] by simp
  with l s r show ?thesis by (intro conjI)
qed


text \<open>
  Claim C3, at scenario B. The output of the code gives Transmision on Domingo to
  volunteer 1 and leaves the fifteen other slots vacant; its warning list starts with
  the non-preferred warning for Transmision on Domingo and has no vacancy warning for
  that slot.
\<close>

theorem scenario_B_schedule:
  "generateSchedule (\<lambda>_. 1 / 2) [scenario_volunteer] scenario_B_lastWeekData ''2025-01-06'' =
    Inr (new_assignment ''2025-01-06'' Domingo Transmision (Some 1)
           # map (\<lambda>(service, role). new_assignment ''2025-01-06'' service role None)
               [(Miercoles, Consola), (Miercoles, Transmision), (Miercoles, Proyeccion),
                (Miercoles, Medios_Digitales), (Miercoles, Coordinacion),
                (Sabado_Manana, Consola), (Sabado_Manana, Transmision),
                (Sabado_Manana, Proyeccion), (Sabado_Manana, Medios_Digitales),
                (Sabado_Manana, Coordinacion),
                (Sabado_Tarde, Consola), (Sabado_Tarde, Transmision),
                (Sabado_Tarde, Proyeccion), (Sabado_Tarde, Medios_Digitales),
                (Sabado_Tarde, Coordinacion)],
         relaxed_warning Transmision Domingo
           # map (\<lambda>(service, role). vacancy_warning role service)
               [(Miercoles, Consola), (Miercoles, Transmision), (Miercoles, Proyeccion),
                (Miercoles, Medios_Digitales), (Miercoles, Coordinacion),
                (Sabado_Manana, Consola), (Sabado_Manana, Transmision),
                (Sabado_Manana, Proyeccion), (Sabado_Manana, Medios_Digitales),
                (Sabado_Manana, Coordinacion),
                (Sabado_Tarde, Consola), (Sabado_Tarde, Transmision),
                (Sabado_Tarde, Proyeccion), (Sabado_Tarde, Medios_Digitales),
                (Sabado_Tarde, Coordinacion)])
   \<and> vacancy_warning Transmision Domingo \<notin> set
        (relaxed_warning Transmision Domingo
           # map (\<lambda>(service, role). vacancy_warning role service)
               [(Miercoles, Consola), (Miercoles, Transmision), (Miercoles, Proyeccion),
                (Miercoles, Medios_Digitales), (Miercoles, Coordinacion),
                (Sabado_Manana, Consola), (Sabado_Manana, Transmision),
                (Sabado_Manana, Proyeccion), (Sabado_Manana, Medios_Digitales),
                (Sabado_Manana, Coordinacion),
                (Sabado_Tarde, Consola), (Sabado_Tarde, Transmision),
                (Sabado_Tarde, Proyeccion), (Sabado_Tarde, Medios_Digitales),
                (Sabado_Tarde, Coordinacion)])"
proof -
  have h: "random_contract (\<lambda>_. 1 / 2)" by (rule random_contract_half)
  show ?thesis
    unfolding scenario_B_output [OF h]
    by (simp add: needed_slots_eq vacancy_warning_eq_iff vacancy_not_relaxed)
qed

text \<open>
  Claim C4. Under the contract of \<^verbatim>\<open>Math.random\<close>, \<open>generateSchedule\<close> returns, and the slots
  of the assignment list it returns are, in this order, Domingo with Transmision alone and
  then each of the three other services with the five roles in the order of
  \<open>ALL_FUNCTIONS\<close>: one assignment for each needed slot, none for any other slot, every
  one for the week asked for.
\<close>

theorem one_assignment_per_needed_slot:
  assumes "random_contract rnd"
  shows "\<exists>as ws. generateSchedule rnd volunteers lastWeekData wk = Inr (as, ws)
    \<and> map slot_of as =
        [(Domingo, Transmision),
         (Miercoles, Consola), (Miercoles, Transmision), (Miercoles, Proyeccion),
         (Miercoles, Medios_Digitales), (Miercoles, Coordinacion),
         (Sabado_Manana, Consola), (Sabado_Manana, Transmision), (Sabado_Manana, Proyeccion),
         (Sabado_Manana, Medios_Digitales), (Sabado_Manana, Coordinacion),
         (Sabado_Tarde, Consola), (Sabado_Tarde, Transmision), (Sabado_Tarde, Proyeccion),
         (Sabado_Tarde, Medios_Digitales), (Sabado_Tarde, Coordinacion)]
    \<and> map slot_of as = needed_slots
    \<and> distinct (map slot_of as)
    \<and> (\<forall>service role. (service, role) \<in> set (map slot_of as)
          \<longleftrightarrow> (service = Domingo \<longrightarrow> role = Transmision))
    \<and> (\<forall>a\<in>set as. week_start a = wk)"
proof -
  from generateSchedule_total [OF assms] obtain as ws where
    run: "generateSchedule rnd volunteers lastWeekData wk = Inr (as, ws)" by blast
  note slots = generateSchedule_slots [OF run]
  have e: "map slot_of as =
        [(Domingo, Transmision),
         (Miercoles, Consola), (Miercoles, Transmision), (Miercoles, Proyeccion),
         (Miercoles, Medios_Digitales), (Miercoles, Coordinacion),
         (Sabado_Manana, Consola), (Sabado_Manana, Transmision), (Sabado_Manana, Proyeccion),
         (Sabado_Manana, Medios_Digitales), (Sabado_Manana, Coordinacion),
         (Sabado_Tarde, Consola), (Sabado_Tarde, Transmision), (Sabado_Tarde, Proyeccion),
         (Sabado_Tarde, Medios_Digitales), (Sabado_Tarde, Coordinacion)]"
    using slots(1) needed_slots_eq by (rule trans)
  have d: "distinct (map slot_of as)"
    by (simp only: slots(1) needed_slots_distinct)
  have i: "\<forall>service role. (service, role) \<in> set (map slot_of as)
      \<longleftrightarrow> (service = Domingo \<longrightarrow> role = Transmision)"
    by (simp only: slots(1) needed_slots_iff) simp
  show ?thesis
    apply (rule exI [of _ as], rule exI [of _ ws])
    apply (intro conjI)
         apply (rule run)
        apply (rule e)
       apply (rule slots(1))
      apply (rule d)
     apply (rule i)
    apply (rule slots(2))
    done
qed

text \<open>The statement at the roster of scenario A, with every draw equal to one half.\<close>

theorem one_assignment_per_needed_slot_witness:
  "random_contract (\<lambda>_. 1 / 2)
   \<and> (\<exists>as ws. generateSchedule (\<lambda>_. 1 / 2) [scenario_volunteer] [] ''2025-01-06'' = Inr (as, ws)
        \<and> map slot_of as = needed_slots \<and> length as = 16
        \<and> (\<forall>a\<in>set as. week_start a = ''2025-01-06''))"
proof -
  have h: "random_contract (\<lambda>_. 1 / 2)" by (rule random_contract_half)
  from one_assignment_per_needed_slot [OF h, of "[scenario_volunteer]" "[]" "''2025-01-06''"]
  obtain as ws where
    "generateSchedule (\<lambda>_. 1 / 2) [scenario_volunteer] [] ''2025-01-06'' = Inr (as, ws)"
    "map slot_of as = needed_slots" "\<forall>a\<in>set as. week_start a = ''2025-01-06''"
    by blast
  moreover from this(2) have "length as = 16"
    using length_map [of slot_of as] by (simp add: needed_slots_eq)
  ultimately show ?thesis using h by blast
qed



text \<open>
  Claim C6. Every assignment of the output that is not vacant carries the id of a volunteer
  of the roster whose availability contains the service of that assignment, whichever of
  the two passes produced the candidate.
\<close>

theorem assigned_volunteer_is_available:
  assumes "random_contract rnd"
  shows "\<exists>as ws. generateSchedule rnd volunteers lastWeekData wk = Inr (as, ws)
    \<and> (\<forall>a\<in>set as. \<forall>i. volunteer_id a = Some i \<longrightarrow>
          (\<exists>v\<in>set volunteers. id_v v = i \<and> service_type a \<in> set (availability v)))"
proof -
  from generateSchedule_total [OF assms] obtain as ws where
    run: "generateSchedule rnd volunteers lastWeekData wk = Inr (as, ws)" by blast
  have "\<exists>v\<in>set volunteers. id_v v = i \<and> service_type a \<in> set (availability v)"
    if "a \<in> set as" "volunteer_id a = Some i" for a i
    using generateSchedule_assigned [OF run that] by blast
  with run show ?thesis by blast
qed

text \<open>
  The statement at scenario B, where the only assignment that is filled comes from the
  fallback pass.
\<close>

theorem assigned_volunteer_is_available_witness:
  "random_contract (\<lambda>_. 1 / 2)
   \<and> (\<exists>as ws. generateSchedule (\<lambda>_. 1 / 2) [scenario_volunteer] scenario_B_lastWeekData
          ''2025-01-06'' = Inr (as, ws)
        \<and> new_assignment ''2025-01-06'' Domingo Transmision (Some 1) \<in> set as
        \<and> (\<forall>a\<in>set as. \<forall>i. volunteer_id a = Some i \<longrightarrow>
              (\<exists>v\<in>set [scenario_volunteer]. id_v v = i
                  \<and> service_type a \<in> set (availability v))))"
proof -
  have h: "random_contract (\<lambda>_. 1 / 2)" by (rule random_contract_half)
  have out: "generateSchedule (\<lambda>_. 1 / 2) [scenario_volunteer] scenario_B_lastWeekData
      ''2025-01-06'' =
    Inr (new_assignment ''2025-01-06'' Domingo Transmision (Some 1)
           # map (\<lambda>(service, role). new_assignment ''2025-01-06'' service role None)
               (tl needed_slots),
         relaxed_warning Transmision Domingo
           # map (\<lambda>(service, role). vacancy_warning role service) (tl needed_slots))"
    by (rule scenario_B_output [OF h])
  from assigned_volunteer_is_available [OF h, of "[scenario_volunteer]"
      scenario_B_lastWeekData "''2025-01-06''"]
  obtain as ws where
    run: "generateSchedule (\<lambda>_. 1 / 2) [scenario_volunteer] scenario_B_lastWeekData
      ''2025-01-06'' = Inr (as, ws)"
    and p: "\<forall>a\<in>set as. \<forall>i. volunteer_id a = Some i \<longrightarrow>
              (\<exists>v\<in>set [scenario_volunteer]. id_v v = i
                  \<and> service_type a \<in> set (availability v))"
    by blast
  from run out have "new_assignment ''2025-01-06'' Domingo Transmision (Some 1) \<in> set as"
    by auto
  with h run p show ?thesis by blast
qed

text \<open>
  Claim C7. Under the contract of \<^verbatim>\<open>Math.random\<close> \<open>generateSchedule\<close> returns a result and
  throws nothing, for every roster and every answer for last week; an assignment of the
  output is vacant if and only if the warning list contains the vacancy warning of its
  role and service; and a step at which both candidate lists are empty appends the vacant
  assignment and that warning, whatever the draws are.
\<close>

theorem vacancy_is_warned_not_raised:
  assumes "random_contract rnd"
  shows "(\<exists>as ws. generateSchedule rnd volunteers lastWeekData wk = Inr (as, ws)
        \<and> (\<forall>a\<in>set as. volunteer_id a = None
              \<longleftrightarrow> vacancy_warning (function_name a) (service_type a) \<in> set ws))
    \<and> (\<forall>service role st lwv any_rnd.
          strict_candidates volunteers lwv (usedThisWeek st) service role = []
          \<and> relaxed_candidates volunteers (usedThisWeek st) service role = []
          \<longrightarrow> slot_step any_rnd volunteers lwv wk service role st =
              Inr (st\<lparr>assignments := assignments st @ [new_assignment wk service role None],
                      warnings := warnings st @ [vacancy_warning role service]\<rparr>))"
proof -
  from generateSchedule_total [OF assms] obtain as ws where
    run: "generateSchedule rnd volunteers lastWeekData wk = Inr (as, ws)" by blast
  have d: "distinct (map slot_of as)"
    by (simp only: generateSchedule_slots(1) [OF run] needed_slots_distinct)
  then have inj: "inj_on slot_of (set as)" by (simp add: distinct_map)
  have "volunteer_id a = None
      \<longleftrightarrow> vacancy_warning (function_name a) (service_type a) \<in> set ws"
    if a: "a \<in> set as" for a
  proof
    assume "volunteer_id a = None"
    with a show "vacancy_warning (function_name a) (service_type a) \<in> set ws"
      unfolding generateSchedule_vacancies [OF run] by blast
  next
    assume "vacancy_warning (function_name a) (service_type a) \<in> set ws"
    then obtain b where b: "b \<in> set as" "service_type b = service_type a"
      "function_name b = function_name a" "volunteer_id b = None"
      unfolding generateSchedule_vacancies [OF run] by blast
    from b(2,3) have "slot_of b = slot_of a" by (simp add: slot_of_def)
    with inj_on_eq_iff [OF inj b(1) a] have "b = a" by simp
    with b(4) show "volunteer_id a = None" by simp
  qed
  with run have "\<exists>as ws. generateSchedule rnd volunteers lastWeekData wk = Inr (as, ws)
        \<and> (\<forall>a\<in>set as. volunteer_id a = None
              \<longleftrightarrow> vacancy_warning (function_name a) (service_type a) \<in> set ws)"
    by blast
  then show ?thesis by (simp add: slot_step_vacant)
qed

text \<open>
  The statement at scenario A: the slot Consola on Miercoles is vacant and warned, the
  slot Transmision on Domingo is neither; and the step for Consola on Miercoles from the
  initial state finds no candidate.
\<close>

theorem vacancy_is_warned_not_raised_witness:
  "random_contract (\<lambda>_. 1 / 2)
   \<and> (\<exists>as ws. generateSchedule (\<lambda>_. 1 / 2) [scenario_volunteer] [] ''2025-01-06''
          = Inr (as, ws)
        \<and> new_assignment ''2025-01-06'' Miercoles Consola None \<in> set as
        \<and> vacancy_warning Consola Miercoles \<in> set ws
        \<and> new_assignment ''2025-01-06'' Domingo Transmision (Some 1) \<in> set as
        \<and> vacancy_warning Transmision Domingo \<notin> set ws)
   \<and> strict_candidates [scenario_volunteer] {} (usedThisWeek initial_state) Miercoles Consola = []
   \<and> relaxed_candidates [scenario_volunteer] (usedThisWeek initial_state) Miercoles Consola = []
   \<and> slot_step (\<lambda>_. 1 / 2) [scenario_volunteer] {} ''2025-01-06'' Miercoles Consola initial_state
       = Inr (initial_state\<lparr>assignments := assignments initial_state
                 @ [new_assignment ''2025-01-06'' Miercoles Consola None],
               warnings := warnings initial_state @ [vacancy_warning Consola Miercoles]\<rparr>)"
proof -
  have h: "random_contract (\<lambda>_. 1 / 2)" by (rule random_contract_half)
  note inst = vacancy_is_warned_not_raised [OF h, of "[scenario_volunteer]" "[]" "''2025-01-06''"]
  have out: "generateSchedule (\<lambda>_. 1 / 2) [scenario_volunteer] [] ''2025-01-06'' =
    Inr (new_assignment ''2025-01-06'' Domingo Transmision (Some 1)
           # map (\<lambda>(service, role). new_assignment ''2025-01-06'' service role None)
               (tl needed_slots),
         map (\<lambda>(service, role). vacancy_warning role service) (tl needed_slots))"
    by (rule scenario_A_output [OF h])
  from inst obtain as ws where
    run: "generateSchedule (\<lambda>_. 1 / 2) [scenario_volunteer] [] ''2025-01-06'' = Inr (as, ws)"
    and p: "\<forall>a\<in>set as. volunteer_id a = None
              \<longleftrightarrow> vacancy_warning (function_name a) (service_type a) \<in> set ws"
    by blast
  from run out have as: "as = new_assignment ''2025-01-06'' Domingo Transmision (Some 1)
           # map (\<lambda>(service, role). new_assignment ''2025-01-06'' service role None)
               (tl needed_slots)" by simp
  have m1: "new_assignment ''2025-01-06'' Miercoles Consola None \<in> set as"
    unfolding as by (simp add: needed_slots_eq)
  have m2: "new_assignment ''2025-01-06'' Domingo Transmision (Some 1) \<in> set as"
    unfolding as by simp
  from p m1 have w1: "vacancy_warning Consola Miercoles \<in> set ws"
    by (auto simp: new_assignment_def)
  from p m2 have w2: "vacancy_warning Transmision Domingo \<notin> set ws"
    by (auto simp: new_assignment_def)
  have s: "strict_candidates [scenario_volunteer] {} (usedThisWeek initial_state)
      Miercoles Consola = []"
    by (simp add: strict_candidates_def strict_filter_def scenario_volunteer_def)
  have r: "relaxed_candidates [scenario_volunteer] (usedThisWeek initial_state)
      Miercoles Consola = []"
    by (simp add: relaxed_candidates_def relaxed_filter_def scenario_volunteer_def)
  from inst s r have st: "slot_step (\<lambda>_. 1 / 2) [scenario_volunteer] {} ''2025-01-06''
      Miercoles Consola initial_state
       = Inr (initial_state\<lparr>assignments := assignments initial_state
                 @ [new_assignment ''2025-01-06'' Miercoles Consola None],
               warnings := warnings initial_state @ [vacancy_warning Consola Miercoles]\<rparr>)"
    by blast
  from h run m1 w1 m2 w2 s r st show ?thesis by blast
qed

text \<open>
  Claim C8. When an assignment of the output names a volunteer id and no volunteer of the
  roster with that id has the assigned role among their functions, the warning list
  contains the non-preferred warning of that role and service; with pairwise distinct ids
  in the roster that is: when the assigned volunteer has not the role among their
  functions. A step appends that warning exactly when its first candidate list is empty
  and its fallback list is not, and appends no other non-preferred warning.
\<close>

theorem non_preferred_assignment_is_warned:
  assumes "random_contract rnd"
  shows "(\<exists>as ws. generateSchedule rnd volunteers lastWeekData wk = Inr (as, ws)
        \<and> (\<forall>a\<in>set as. \<forall>i. volunteer_id a = Some i
              \<and> (\<forall>v\<in>set volunteers. id_v v = i \<longrightarrow> function_name a \<notin> set (functions_v v))
              \<longrightarrow> relaxed_warning (function_name a) (service_type a) \<in> set ws)
        \<and> (distinct (map id_v volunteers) \<longrightarrow>
             (\<forall>a\<in>set as. \<forall>v\<in>set volunteers. volunteer_id a = Some (id_v v)
                \<and> function_name a \<notin> set (functions_v v)
                \<longrightarrow> relaxed_warning (function_name a) (service_type a) \<in> set ws)))
    \<and> (\<forall>service role st. \<exists>st' added.
          slot_step rnd volunteers (set (map volunteer_id lastWeekData)) wk service role st
            = Inr st'
          \<and> warnings st' = warnings st @ added
          \<and> (relaxed_warning role service \<in> set added \<longleftrightarrow>
               strict_candidates volunteers (set (map volunteer_id lastWeekData))
                   (usedThisWeek st) service role = []
               \<and> relaxed_candidates volunteers (usedThisWeek st) service role \<noteq> [])
          \<and> (\<forall>r s. relaxed_warning r s \<in> set added \<longrightarrow> r = role \<and> s = service))"
proof -
  from generateSchedule_total [OF assms] obtain as ws where
    run: "generateSchedule rnd volunteers lastWeekData wk = Inr (as, ws)" by blast
  have general: "relaxed_warning (function_name a) (service_type a) \<in> set ws"
    if "a \<in> set as" "volunteer_id a = Some i"
      "\<forall>v\<in>set volunteers. id_v v = i \<longrightarrow> function_name a \<notin> set (functions_v v)"
    for a i
    using generateSchedule_assigned [OF run that(1,2)] that(3) by blast
  have unique: "relaxed_warning (function_name a) (service_type a) \<in> set ws"
    if ids: "distinct (map id_v volunteers)" and "a \<in> set as" "v \<in> set volunteers"
      "volunteer_id a = Some (id_v v)" "function_name a \<notin> set (functions_v v)"
    for a v
  proof -
    from ids have inj: "inj_on id_v (set volunteers)" by (simp add: distinct_map)
    from generateSchedule_assigned [OF run that(2,4)] obtain v' where
      v': "v' \<in> set volunteers" "id_v v' = id_v v"
        "function_name a \<in> set (functions_v v')
          \<or> relaxed_warning (function_name a) (service_type a) \<in> set ws"
      by blast
    from inj_on_eq_iff [OF inj v'(1) that(3)] v'(2) have "v' = v" by simp
    with v'(3) that(5) show ?thesis by simp
  qed
  have whole: "\<exists>as ws. generateSchedule rnd volunteers lastWeekData wk = Inr (as, ws)
        \<and> (\<forall>a\<in>set as. \<forall>i. volunteer_id a = Some i
              \<and> (\<forall>v\<in>set volunteers. id_v v = i \<longrightarrow> function_name a \<notin> set (functions_v v))
              \<longrightarrow> relaxed_warning (function_name a) (service_type a) \<in> set ws)
        \<and> (distinct (map id_v volunteers) \<longrightarrow>
             (\<forall>a\<in>set as. \<forall>v\<in>set volunteers. volunteer_id a = Some (id_v v)
                \<and> function_name a \<notin> set (functions_v v)
                \<longrightarrow> relaxed_warning (function_name a) (service_type a) \<in> set ws))"
    apply (rule exI [of _ as], rule exI [of _ ws])
    apply (intro conjI)
      apply (rule run)
     apply (blast intro: general)
    apply (blast intro: unique)
    done
  have one: "\<exists>st' added.
          slot_step rnd volunteers (set (map volunteer_id lastWeekData)) wk service role st
            = Inr st'
          \<and> warnings st' = warnings st @ added
          \<and> (relaxed_warning role service \<in> set added \<longleftrightarrow>
               strict_candidates volunteers (set (map volunteer_id lastWeekData))
                   (usedThisWeek st) service role = []
               \<and> relaxed_candidates volunteers (usedThisWeek st) service role \<noteq> [])
          \<and> (\<forall>r s. relaxed_warning r s \<in> set added \<longrightarrow> r = role \<and> s = service)"
    for service role st
  proof -
    from slot_step_total [OF assms] obtain st' where
      s: "slot_step rnd volunteers (set (map volunteer_id lastWeekData)) wk service role st
            = Inr st'" by blast
    note w = slot_step_warnings [OF s]
    show ?thesis
      apply (rule exI [of _ st'])
      apply (rule exI [of _ "if strict_candidates volunteers (set (map volunteer_id lastWeekData))
            (usedThisWeek st) service role \<noteq> [] then []
          else if relaxed_candidates volunteers (usedThisWeek st) service role \<noteq> []
            then [relaxed_warning role service]
          else [vacancy_warning role service]"])
      apply (intro conjI)
         apply (rule s)
        apply (rule w)
       apply (simp add: vacancy_not_relaxed [symmetric])
      apply (simp add: vacancy_not_relaxed vacancy_not_relaxed [symmetric]
          relaxed_warning_eq_iff)
      done
  qed
  from whole one show ?thesis by blast
qed

text \<open>
  The statement for the coordinator with every draw equal to 0: on Sabado Manana the
  role Proyeccion, which is not among their functions, goes to them by the fallback,
  and the warning is in the list; and the step for Proyeccion on Miercoles from the
  initial state has an empty first list and a non-empty fallback list.
\<close>

theorem non_preferred_assignment_is_warned_witness:
  "random_contract (\<lambda>_. 0)
   \<and> distinct (map id_v [coordinator_volunteer])
   \<and> coordinator_volunteer \<in> set [coordinator_volunteer]
   \<and> Proyeccion \<notin> set (functions_v coordinator_volunteer)
   \<and> (\<exists>as ws. generateSchedule (\<lambda>_. 0) [coordinator_volunteer] [] ''2025-01-06''
          = Inr (as, ws)
        \<and> new_assignment ''2025-01-06'' Sabado_Manana Proyeccion (Some 1) \<in> set as
        \<and> relaxed_warning Proyeccion Sabado_Manana \<in> set ws)
   \<and> strict_candidates [coordinator_volunteer] (set (map volunteer_id ([] :: ScheduleAssignment list)))
        (usedThisWeek initial_state) Miercoles Proyeccion = []
   \<and> relaxed_candidates [coordinator_volunteer] (usedThisWeek initial_state)
        Miercoles Proyeccion = [coordinator_volunteer]
   \<and> (\<exists>st'. slot_step (\<lambda>_. 0) [coordinator_volunteer] (set (map volunteer_id ([] :: ScheduleAssignment list)))
          ''2025-01-06'' Miercoles Proyeccion initial_state = Inr st'
        \<and> relaxed_warning Proyeccion Miercoles \<in> set (warnings st'))"
proof -
  have h: "random_contract (\<lambda>_. 0)" by (rule random_contract_zero)
  note inst = non_preferred_assignment_is_warned
    [OF h, of "[coordinator_volunteer]" "[]" "''2025-01-06''"]
  have d: "distinct (map id_v [coordinator_volunteer])" by simp
  have v: "coordinator_volunteer \<in> set [coordinator_volunteer]" by simp
  have f: "Proyeccion \<notin> set (functions_v coordinator_volunteer)"
    by (simp add: coordinator_volunteer_def)
  from inst d obtain as ws where
    run: "generateSchedule (\<lambda>_. 0) [coordinator_volunteer] [] ''2025-01-06'' = Inr (as, ws)"
    and p: "\<forall>a\<in>set as. \<forall>v\<in>set [coordinator_volunteer]. volunteer_id a = Some (id_v v)
                \<and> function_name a \<notin> set (functions_v v)
                \<longrightarrow> relaxed_warning (function_name a) (service_type a) \<in> set ws"
    by blast
  from run have m: "new_assignment ''2025-01-06'' Sabado_Manana Proyeccion (Some 1) \<in> set as"
    unfolding coordinator_output by (auto simp: needed_slots_eq)
  have "volunteer_id (new_assignment ''2025-01-06'' Sabado_Manana Proyeccion (Some 1))
      = Some (id_v coordinator_volunteer)"
    by (simp add: new_assignment_def coordinator_volunteer_def)
  with p m v f have w: "relaxed_warning Proyeccion Sabado_Manana \<in> set ws"
    by (fastforce simp: new_assignment_def)
  have s: "strict_candidates [coordinator_volunteer] (set (map volunteer_id ([] :: ScheduleAssignment list)))
        (usedThisWeek initial_state) Miercoles Proyeccion = []"
    by (simp add: strict_candidates_def strict_filter_def coordinator_volunteer_def)
  have r: "relaxed_candidates [coordinator_volunteer] (usedThisWeek initial_state)
        Miercoles Proyeccion = [coordinator_volunteer]"
    by (simp add: relaxed_candidates_def relaxed_filter_def coordinator_volunteer_def
        initial_state_def rolesUsed_of_def)
  from inst [THEN conjunct2, rule_format, of Miercoles Proyeccion initial_state]
  obtain st' added where
    st: "slot_step (\<lambda>_. 0) [coordinator_volunteer] (set (map volunteer_id ([] :: ScheduleAssignment list)))
          ''2025-01-06'' Miercoles Proyeccion initial_state = Inr st'"
    and a: "warnings st' = warnings initial_state @ added"
    and i: "relaxed_warning Proyeccion Miercoles \<in> set added \<longleftrightarrow>
       strict_candidates [coordinator_volunteer] (set (map volunteer_id ([] :: ScheduleAssignment list)))
         (usedThisWeek initial_state) Miercoles Proyeccion = []
       \<and> relaxed_candidates [coordinator_volunteer] (usedThisWeek initial_state)
           Miercoles Proyeccion \<noteq> []"
    by blast
  from i s r have "relaxed_warning Proyeccion Miercoles \<in> set added" by simp
  with a have w': "relaxed_warning Proyeccion Miercoles \<in> set (warnings st')" by simp
  from h d v f run m w s r st w' show ?thesis by blast
qed

text \<open>
  Claim C9, as the code has it. For the roster of scenario A and no assignment last week,
  the output has one assignment for each of the sixteen needed slots: the first, for
  Transmision on Domingo, names volunteer 1, and the fifteen others are vacant; the warning
  list holds the fifteen vacancy warnings of those slots, in their order, and nothing
  else.
\<close>

theorem scenario_A_schedule:
  assumes "random_contract rnd"
  shows "generateSchedule rnd [scenario_volunteer] [] wk =
    Inr (new_assignment wk Domingo Transmision (Some 1)
           # map (\<lambda>(service, role). new_assignment wk service role None)
               [(Miercoles, Consola), (Miercoles, Transmision), (Miercoles, Proyeccion),
                (Miercoles, Medios_Digitales), (Miercoles, Coordinacion),
                (Sabado_Manana, Consola), (Sabado_Manana, Transmision),
                (Sabado_Manana, Proyeccion), (Sabado_Manana, Medios_Digitales),
                (Sabado_Manana, Coordinacion),
                (Sabado_Tarde, Consola), (Sabado_Tarde, Transmision),
                (Sabado_Tarde, Proyeccion), (Sabado_Tarde, Medios_Digitales),
                (Sabado_Tarde, Coordinacion)],
         map (\<lambda>(service, role). vacancy_warning role service)
               [(Miercoles, Consola), (Miercoles, Transmision), (Miercoles, Proyeccion),
                (Miercoles, Medios_Digitales), (Miercoles, Coordinacion),
                (Sabado_Manana, Consola), (Sabado_Manana, Transmision),
                (Sabado_Manana, Proyeccion), (Sabado_Manana, Medios_Digitales),
                (Sabado_Manana, Coordinacion),
                (Sabado_Tarde, Consola), (Sabado_Tarde, Transmision),
                (Sabado_Tarde, Proyeccion), (Sabado_Tarde, Medios_Digitales),
                (Sabado_Tarde, Coordinacion)])"
  unfolding scenario_A_output [OF assms] by (simp add: needed_slots_eq)

theorem scenario_A_schedule_witness:
  "random_contract (\<lambda>_. 1 / 2)
   \<and> (\<exists>as ws. generateSchedule (\<lambda>_. 1 / 2) [scenario_volunteer] [] ''2025-01-06''
          = Inr (as, ws)
        \<and> as ! 0 = new_assignment ''2025-01-06'' Domingo Transmision (Some 1)
        \<and> filter (\<lambda>a. volunteer_id a \<noteq> None) as
            = [new_assignment ''2025-01-06'' Domingo Transmision (Some 1)]
        \<and> length as = 16 \<and> length ws = 15)"
proof -
  have h: "random_contract (\<lambda>_. 1 / 2)" by (rule random_contract_half)
  show ?thesis
    unfolding scenario_A_schedule [OF h, of "''2025-01-06''"]
    using h by (simp add: new_assignment_def)
qed

text \<open>
  Claim C9 as the spec states it fails: the output of scenario A is not the single
  assignment with an empty warning list.
\<close>

theorem scenario_A_counterexample:
  "generateSchedule (\<lambda>_. 1 / 2) [scenario_volunteer] [] ''2025-01-06''
     \<noteq> Inr ([new_assignment ''2025-01-06'' Domingo Transmision (Some 1)], [])"
proof -
  have h: "random_contract (\<lambda>_. 1 / 2)" by (rule random_contract_half)
  show ?thesis
    unfolding scenario_A_output [OF h, of "''2025-01-06''"]
    by (simp add: needed_slots_eq)
qed

text \<open>
  Claim C10. For a draw within the contract of \<^verbatim>\<open>Math.random\<close> and a non-empty candidate list,
  the index \<open>random_index\<close>, the floor of the product as the Number arithmetic rounds it,
  lies within the list, so that the element read there is defined and is one of the
  candidates; and every volunteer id in the output is the id of a volunteer of the roster.
\<close>

theorem selected_candidate_in_roster:
  assumes "random_contract rnd"
  shows "(\<forall>k (candidates :: Volunteer list). candidates \<noteq> [] \<longrightarrow>
            0 \<le> random_index (rnd k) candidates
          \<and> random_index (rnd k) candidates < int (length candidates)
          \<and> (\<exists>selected. element_at candidates (random_index (rnd k) candidates) = Some selected
                \<and> selected \<in> set candidates))
    \<and> (\<exists>as ws. generateSchedule rnd volunteers lastWeekData wk = Inr (as, ws)
          \<and> (\<forall>a\<in>set as. \<forall>i. volunteer_id a = Some i \<longrightarrow> i \<in> id_v ` set volunteers))"
proof -
  have "0 \<le> random_index (rnd k) candidates
      \<and> random_index (rnd k) candidates < int (length candidates)
      \<and> (\<exists>selected. element_at candidates (random_index (rnd k) candidates) = Some selected
            \<and> selected \<in> set candidates)"
    if "candidates \<noteq> []" for k and candidates :: "Volunteer list"
  proof -
    note r = random_contractD [OF assms, of k]
    from random_index_bounds [OF r that]
    have b: "0 \<le> random_index (rnd k) candidates"
      "random_index (rnd k) candidates < int (length candidates)" by simp_all
    from element_at_in_range [OF b] obtain selected where
      sel: "element_at candidates (random_index (rnd k) candidates) = Some selected" by blast
    from element_at_Some [OF sel] have "selected \<in> set candidates" .
    with b sel show ?thesis by simp
  qed
  moreover
  from generateSchedule_total [OF assms] obtain as ws where
    run: "generateSchedule rnd volunteers lastWeekData wk = Inr (as, ws)" by blast
  have "i \<in> id_v ` set volunteers" if "a \<in> set as" "volunteer_id a = Some i" for a i
    using generateSchedule_assigned [OF run that] by blast
  with run have "\<exists>as ws. generateSchedule rnd volunteers lastWeekData wk = Inr (as, ws)
      \<and> (\<forall>a\<in>set as. \<forall>i. volunteer_id a = Some i \<longrightarrow> i \<in> id_v ` set volunteers)"
    by blast
  ultimately show ?thesis by blast
qed

text \<open>
  The statement at the draw nearest to two thirds and three candidates: the rounded
  product is 2, so the index is 2, within the list, and the run with the three
  volunteers for Transmision assigns the third.
\<close>

theorem selected_candidate_in_roster_witness:
  "random_contract (\<lambda>_. 6004799503160661 / 2 ^ 53)
   \<and> random_index (6004799503160661 / 2 ^ 53) transmission_team = 2
   \<and> element_at transmission_team (random_index (6004799503160661 / 2 ^ 53) transmission_team)
       = Some (scenario_volunteer\<lparr>id_v := 3, name := ''Carla''\<rparr>)
   \<and> (\<exists>as ws. generateSchedule (\<lambda>_. 6004799503160661 / 2 ^ 53) transmission_team []
          ''2025-01-06'' = Inr (as, ws)
        \<and> new_assignment ''2025-01-06'' Domingo Transmision (Some 3) \<in> set as
        \<and> (\<forall>a\<in>set as. \<forall>i. volunteer_id a = Some i \<longrightarrow> i \<in> id_v ` set transmission_team))"
proof -
  have h: "random_contract (\<lambda>_. 6004799503160661 / 2 ^ 53)"
    by (rule random_contract_two_thirds)
  note inst = selected_candidate_in_roster [OF h, of transmission_team "[]" "''2025-01-06''"]
  have ne: "transmission_team \<noteq> []" by (simp add: transmission_team_def)
  have i: "random_index (6004799503160661 / 2 ^ 53) transmission_team = 2"
    unfolding transmission_team_def by (rule random_index_two_thirds)
  from inst [THEN conjunct1] ne
  obtain selected where
    sel: "element_at transmission_team
        (random_index (6004799503160661 / 2 ^ 53) transmission_team) = Some selected"
    by blast
  from sel have e: "element_at transmission_team
        (random_index (6004799503160661 / 2 ^ 53) transmission_team)
       = Some (scenario_volunteer\<lparr>id_v := 3, name := ''Carla''\<rparr>)"
    unfolding i by (simp add: element_at_def transmission_team_def)
  from inst obtain as ws where
    run: "generateSchedule (\<lambda>_. 6004799503160661 / 2 ^ 53) transmission_team []
          ''2025-01-06'' = Inr (as, ws)"
    and p: "\<forall>a\<in>set as. \<forall>i. volunteer_id a = Some i \<longrightarrow> i \<in> id_v ` set transmission_team"
    by blast
  from run have m: "new_assignment ''2025-01-06'' Domingo Transmision (Some 3) \<in> set as"
    unfolding transmission_team_output by auto
  from h i e run m p show ?thesis by blast
qed

end
